theory Spec2Isabelle
  imports Complex_Main
begin

section \<open>Wilson-Cowan solvers of Day8/Day_NM.ipynb\<close>

text \<open>
  The notebook computes with IEEE doubles. The embedding computes with exact real
  numbers: rounding, overflow to \<open>inf\<close> and \<open>nan\<close> are not represented. Python
  exceptions are values of \<open>error\<close>; the scalar arguments are Python numbers, as in
  the notebook's calls. \<open>NonFinite\<close> is not an exception: it marks a
  run in which numpy would produce \<open>inf\<close> or \<open>nan\<close> (array division by zero, which
  only warns), so that the run leaves the real numbers.
\<close>

datatype error = ZeroDivisionError | ValueError | NonFinite

subsection \<open>Activation function\<close>

text \<open>\<^verbatim>\<open>def act_fun(z): return z *(z>0)\<close>: the comparison is a boolean, 1 or 0 in the
  product.\<close>

definition act_fun :: "real \<Rightarrow> real" where
  "act_fun z = z * (if z > 0 then 1 else 0)"

subsection \<open>Library operations the solvers call\<close>

text \<open>\<^verbatim>\<open>np.arange(start, stop, step)\<close>: \<open>ceil((stop - start)/step)\<close> points
  \<open>start + k*step\<close>, none when that number is not positive; a zero step raises.\<close>

definition arange :: "real \<Rightarrow> real \<Rightarrow> real \<Rightarrow> error + real list" where
  "arange start stop step =
     (if step = 0 then Inl ZeroDivisionError
      else Inr (map (\<lambda>k. start + real k * step)
                    [0 ..< nat \<lceil>(stop - start) / step\<rceil>]))"

text \<open>Division of two Python floats: a zero divisor raises.\<close>

definition py_div :: "real \<Rightarrow> real \<Rightarrow> error + real" where
  "py_div a b = (if b = 0 then Inl ZeroDivisionError else Inr (a / b))"

text \<open>\<^verbatim>\<open>for i in range(...)\<close> over a body that may raise: the first error ends the
  loop.\<close>

fun for_range :: "(nat \<Rightarrow> 's \<Rightarrow> error + 's) \<Rightarrow> nat list \<Rightarrow> 's \<Rightarrow> error + 's" where
  "for_range body [] s = Inr s"
| "for_range body (i # js) s =
     (case body i s of Inl e \<Rightarrow> Inl e | Inr s' \<Rightarrow> for_range body js s')"

subsection \<open>Scalar two-population solver\<close>

text \<open>One pass of the loop body of \<^verbatim>\<open>WC_solver\<close> on the arrays \<open>(r_E, r_I)\<close>:
  \<open>dr_E\<close> and \<open>dr_I\<close> are computed from index \<open>i\<close>, then index \<open>i+1\<close> of both arrays
  is written.\<close>

definition WC_body ::
  "real \<Rightarrow> real \<Rightarrow> real \<Rightarrow> real \<Rightarrow> real \<Rightarrow> real \<Rightarrow> real \<Rightarrow> real \<Rightarrow> real \<Rightarrow>
   nat \<Rightarrow> real list \<times> real list \<Rightarrow> error + real list \<times> real list" where
  "WC_body I_E I_I w_EE w_EI w_IE w_II tau_E tau_I dt i s =
     (case s of (r_E, r_I) \<Rightarrow>
       (case py_div dt tau_E of Inl e \<Rightarrow> Inl e | Inr q_E \<Rightarrow>
         (let dr_E = q_E * (- (r_E ! i) + act_fun (w_EE * r_E ! i + w_EI * r_I ! i + I_E)) in
           (case py_div dt tau_I of Inl e \<Rightarrow> Inl e | Inr q_I \<Rightarrow>
             (let dr_I = q_I * (- (r_I ! i) + act_fun (w_IE * r_E ! i + w_II * r_I ! i + I_I)) in
               Inr (r_E[i + 1 := r_E ! i + dr_E], r_I[i + 1 := r_I ! i + dr_I]))))))"

definition WC_solver ::
  "real \<Rightarrow> real \<Rightarrow> real \<Rightarrow> real \<Rightarrow> real \<Rightarrow> real \<Rightarrow> real \<Rightarrow> real \<Rightarrow> real \<Rightarrow> real \<Rightarrow>
   error + real list \<times> real list \<times> real list" where
  "WC_solver I_E I_I w_EE w_EI w_IE w_II tau_E tau_I dt T_end =
     (case arange 0 T_end dt of Inl e \<Rightarrow> Inl e | Inr T \<Rightarrow>
       (let r_E = replicate (length T) 0; r_I = replicate (length T) 0 in
         (case for_range (WC_body I_E I_I w_EE w_EI w_IE w_II tau_E tau_I dt)
                 [0 ..< length T - 1] (r_E, r_I) of
            Inl e \<Rightarrow> Inl e
          | Inr (r_E', r_I') \<Rightarrow> Inr (r_E', r_I', T))))"

subsection \<open>Vectorized N-population solver\<close>

text \<open>The state \<open>r\<close> is an array of \<open>N\<close> rows, one per population, each of the length
  of the grid. \<^verbatim>\<open>r[:,i]\<close> reads a column; \<^verbatim>\<open>r[:,i+1] = v\<close> writes one, a vector of
  length 1 being broadcast to every row and any other length than \<open>N\<close> raising.\<close>

definition column :: "real list list \<Rightarrow> nat \<Rightarrow> real list" where
  "column r i = map (\<lambda>row. row ! i) r"

definition set_column :: "real list list \<Rightarrow> nat \<Rightarrow> real list \<Rightarrow> error + real list list" where
  "set_column r i v =
     (if length v = length r then Inr (map2 (\<lambda>row x. row[i := x]) r v)
      else if length v = 1 then Inr (map (\<lambda>row. row[i := hd v]) r)
      else Inl ValueError)"

text \<open>Elementwise operation on two one-dimensional arrays with numpy's broadcasting:
  equal lengths, or one of them of length 1.\<close>

definition bcast :: "(real \<Rightarrow> real \<Rightarrow> real) \<Rightarrow> real list \<Rightarrow> real list \<Rightarrow> error + real list" where
  "bcast f xs ys =
     (if length xs = length ys then Inr (map2 f xs ys)
      else if length xs = 1 then Inr (map (f (hd xs)) ys)
      else if length ys = 1 then Inr (map (\<lambda>x. f x (hd ys)) xs)
      else Inl ValueError)"

text \<open>\<^verbatim>\<open>np.array(np.matrix(W) * np.matrix(v).T).T[0]\<close>: the product of the matrix
  \<open>W\<close> (a list of rows) with the column vector \<open>v\<close>; every row must be as long as
  \<open>v\<close>.\<close>

definition matvec :: "real list list \<Rightarrow> real list \<Rightarrow> error + real list" where
  "matvec W v =
     (if \<forall>row \<in> set W. length row = length v
      then Inr (map (\<lambda>row. sum_list (map2 (*) row v)) W)
      else Inl ValueError)"

text \<open>One pass of the loop body of \<^verbatim>\<open>WC_solver_MW\<close>. The shape errors come in the
  order in which Python evaluates the operands. \<^verbatim>\<open>dt/tau\<close> divides a float by an
  array: a zero entry gives \<open>inf\<close> or \<open>nan\<close> without raising, reported last as
  \<open>NonFinite\<close>.\<close>

definition WC_body_MW ::
  "real list \<Rightarrow> real list list \<Rightarrow> real list \<Rightarrow> real \<Rightarrow> nat \<Rightarrow> real list list \<Rightarrow>
   error + real list list" where
  "WC_body_MW I W tau dt i r =
     (case matvec W (column r i) of Inl e \<Rightarrow> Inl e | Inr I_rec \<Rightarrow>
     (case bcast (+) I_rec I of Inl e \<Rightarrow> Inl e | Inr net \<Rightarrow>
     (case bcast (+) (map uminus (column r i)) (map act_fun net) of Inl e \<Rightarrow> Inl e | Inr drive \<Rightarrow>
     (case bcast (*) (map (\<lambda>t. dt / t) tau) drive of Inl e \<Rightarrow> Inl e | Inr dr \<Rightarrow>
     (case bcast (+) (column r i) dr of Inl e \<Rightarrow> Inl e | Inr v \<Rightarrow>
     (case set_column r (i + 1) v of Inl e \<Rightarrow> Inl e | Inr r' \<Rightarrow>
        if 0 \<in> set tau then Inl NonFinite else Inr r'))))))"

definition WC_solver_MW ::
  "real list \<Rightarrow> real list list \<Rightarrow> real list \<Rightarrow> real \<Rightarrow> real \<Rightarrow>
   error + real list list \<times> real list" where
  "WC_solver_MW I W tau dt T_end =
     (let N = length W in
       (case arange 0 T_end dt of Inl e \<Rightarrow> Inl e | Inr T \<Rightarrow>
         (let r = replicate N (replicate (length T) 0) in
           (case for_range (WC_body_MW I W tau dt) [0 ..< length T - 1] r of
              Inl e \<Rightarrow> Inl e
            | Inr r' \<Rightarrow> Inr (r', T)))))"


subsection \<open>Spectral analyzer\<close>

text \<open>\<^verbatim>\<open>np.nanmean\<close>: the mean of the entries that are not \<open>nan\<close>. A list of reals has no
  such entry, so every entry counts. (On the empty list numpy returns \<open>nan\<close>; \<open>FF\<close> then
  stops in \<^verbatim>\<open>fftpack.fft\<close>.)\<close>

definition nanmean :: "real list \<Rightarrow> real" where
  "nanmean x = sum_list x / real (length x)"

text \<open>\<^verbatim>\<open>fftpack.fft(x)\<close>: \<open>X[k] = sum over n of x[n] * exp(-2 pi i k n / M)\<close>; an empty
  input raises ValueError.\<close>

definition fft :: "real list \<Rightarrow> error + complex list" where
  "fft x =
     (if x = [] then Inl ValueError
      else Inr (map (\<lambda>k. sum_list (map (\<lambda>n. of_real (x ! n)
                    * cis (- 2 * pi * real k * real n / real (length x))) [0 ..< length x]))
                [0 ..< length x]))"

text \<open>\<^verbatim>\<open>fftpack.fftfreq(n)\<close> with the default spacing 1: the integers
  \<open>0 .. (n-1)//2\<close> followed by \<open>-(n//2) .. -1\<close>, each times \<open>1/(n*1)\<close>.\<close>

definition fftfreq :: "nat \<Rightarrow> real list" where
  "fftfreq n =
     (let val = 1 / (real n * 1);
          N = (n - 1) div 2 + 1;
          p1 = map int [0 ..< N];
          p2 = map (\<lambda>j. - int (n div 2) + int j) [0 ..< n div 2]
      in map (\<lambda>z. real_of_int z * val) (p1 @ p2))"

text \<open>\<^verbatim>\<open>np.argmax\<close>: one scan that keeps the running maximum \<open>mp\<close> and its index \<open>idx\<close>
  and replaces them only on a strictly larger entry, so the first maximal index is
  returned.\<close>

fun argmax_from :: "real list \<Rightarrow> nat \<Rightarrow> real \<Rightarrow> nat \<Rightarrow> nat" where
  "argmax_from [] i mp idx = idx"
| "argmax_from (a # as) i mp idx =
     (if a > mp then argmax_from as (i + 1) a i else argmax_from as (i + 1) mp idx)"

definition argmax :: "real list \<Rightarrow> nat" where
  "argmax a = (case a of [] \<Rightarrow> 0 | a0 # as \<Rightarrow> argmax_from as 1 a0 0)"

text \<open>\<^verbatim>\<open>FF(x0, plotting)\<close> reads the notebook's global \<open>dt\<close>, here its first argument.
  The plot drawn when \<open>plotting\<close> is set has no part in the result.\<close>

definition FF :: "real \<Rightarrow> real list \<Rightarrow> bool \<Rightarrow>
    error + real list \<times> complex list \<times> real \<times> real" where
  "FF dt x0 plotting =
     (case py_div 1000 dt of Inl e \<Rightarrow> Inl e | Inr f_s \<Rightarrow>
       (let x = map (\<lambda>v. v - nanmean x0) x0 in
         (case fft x of Inl e \<Rightarrow> Inl e | Inr X \<Rightarrow>
           (let freqs = map (\<lambda>f. f * f_s) (fftfreq (length x));
                max_freq = freqs ! argmax (map cmod X);
                max_mag = cmod (X ! argmax (map cmod X))
            in Inr (freqs, X, max_freq, max_mag)))))"

subsection \<open>What the loops compute\<close>

text \<open>The pair written at index \<open>n\<close> of \<open>r_E\<close> and \<open>r_I\<close> by the scalar loop, as a
  function of \<open>n\<close>: the loop body read as a recurrence from \<open>(0, 0)\<close>.\<close>

primrec euler_seq ::
  "real \<Rightarrow> real \<Rightarrow> real \<Rightarrow> real \<Rightarrow> real \<Rightarrow> real \<Rightarrow> real \<Rightarrow> real \<Rightarrow> real \<Rightarrow> nat \<Rightarrow> real \<times> real" where
  "euler_seq I_E I_I w_EE w_EI w_IE w_II tau_E tau_I dt 0 = (0, 0)"
| "euler_seq I_E I_I w_EE w_EI w_IE w_II tau_E tau_I dt (Suc n) =
     (case euler_seq I_E I_I w_EE w_EI w_IE w_II tau_E tau_I dt n of (e, i) \<Rightarrow>
        (e + dt / tau_E * (- e + act_fun (w_EE * e + w_EI * i + I_E)),
         i + dt / tau_I * (- i + act_fun (w_IE * e + w_II * i + I_I))))"

text \<open>The column written at index \<open>n\<close> of \<open>r\<close> by the vectorized loop when the shapes
  agree (\<open>W\<close> square of dimension \<open>N\<close>, \<open>I\<close> and \<open>tau\<close> of length \<open>N\<close>), so that no
  operand is broadcast.\<close>

definition euler_step_MW ::
  "real list \<Rightarrow> real list list \<Rightarrow> real list \<Rightarrow> real \<Rightarrow> real list \<Rightarrow> real list" where
  "euler_step_MW I W tau dt v =
     map2 (+) v (map2 (*) (map (\<lambda>t. dt / t) tau)
       (map2 (+) (map uminus v)
          (map act_fun (map2 (+) (map (\<lambda>row. sum_list (map2 (*) row v)) W) I))))"

primrec euler_seq_MW ::
  "real list \<Rightarrow> real list list \<Rightarrow> real list \<Rightarrow> real \<Rightarrow> nat \<Rightarrow> real list" where
  "euler_seq_MW I W tau dt 0 = replicate (length W) 0"
| "euler_seq_MW I W tau dt (Suc n) = euler_step_MW I W tau dt (euler_seq_MW I W tau dt n)"

definition valid_shape :: "real list \<Rightarrow> real list list \<Rightarrow> real list \<Rightarrow> bool" where
  "valid_shape I W tau \<longleftrightarrow>
     (\<forall>row \<in> set W. length row = length W) \<and> length I = length W \<and> length tau = length W"

section \<open>The time grid\<close>

lemma arange_pos:
  assumes "dt > 0"
  shows "arange 0 T_end dt = Inr (map (\<lambda>k. real k * dt) [0 ..< nat \<lceil>T_end / dt\<rceil>])"
  using assms by (simp add: arange_def)

lemma grid_single:
  assumes "0 < T_end" "T_end \<le> dt"
  shows "nat \<lceil>T_end / dt\<rceil> = 1"
proof -
  have "0 < T_end / dt" "T_end / dt \<le> 1" using assms by simp_all
  then have "\<lceil>T_end / dt\<rceil> = 1" by (simp add: ceiling_eq_iff)
  then show ?thesis by simp
qed

lemma arange_single:
  assumes "0 < T_end" "T_end \<le> dt"
  shows "arange 0 T_end dt = Inr [0]"
proof -
  have "dt > 0" using assms by simp
  then show ?thesis using grid_single [OF assms] by (simp add: arange_pos)
qed

section \<open>The loops in closed form\<close>

lemma for_range_append:
  "for_range body (xs @ ys) s =
     (case for_range body xs s of Inl e \<Rightarrow> Inl e | Inr s' \<Rightarrow> for_range body ys s')"
  by (induction xs arbitrary: s) (auto split: sum.splits)

lemma map_upt_update:
  "(map f [0 ..< M])[i := v] = map (f(i := v)) [0 ..< M]"
  by (rule nth_equalityI) (auto simp: nth_list_update)

lemma WC_loop:
  assumes "tau_E \<noteq> 0" "tau_I \<noteq> 0"
  shows "n < M \<Longrightarrow>
    for_range (WC_body I_E I_I w_EE w_EI w_IE w_II tau_E tau_I dt) [0 ..< n]
        (replicate M 0, replicate M 0)
    = Inr (map (\<lambda>k. if k \<le> n then fst (euler_seq I_E I_I w_EE w_EI w_IE w_II tau_E tau_I dt k) else 0) [0 ..< M],
           map (\<lambda>k. if k \<le> n then snd (euler_seq I_E I_I w_EE w_EI w_IE w_II tau_E tau_I dt k) else 0) [0 ..< M])"
proof (induction n)
  case 0
  have "replicate M (0::real) = map (\<lambda>k. 0) [0 ..< M]"
    by (simp add: map_replicate_const)
  moreover have "(\<lambda>k. if k \<le> (0::nat) then fst (euler_seq I_E I_I w_EE w_EI w_IE w_II tau_E tau_I dt k) else 0) = (\<lambda>k. 0)"
    "(\<lambda>k. if k \<le> (0::nat) then snd (euler_seq I_E I_I w_EE w_EI w_IE w_II tau_E tau_I dt k) else 0) = (\<lambda>k. 0)"
    by (auto simp: fun_eq_iff)
  ultimately show ?case by simp
next
  case (Suc n)
  then have n: "n < M" "Suc n < M" by simp_all
  let ?body = "WC_body I_E I_I w_EE w_EI w_IE w_II tau_E tau_I dt"
  have "for_range ?body [0 ..< Suc n] (replicate M 0, replicate M 0)
      = ?body n (map (\<lambda>k. if k \<le> n then fst (euler_seq I_E I_I w_EE w_EI w_IE w_II tau_E tau_I dt k) else 0) [0 ..< M],
           map (\<lambda>k. if k \<le> n then snd (euler_seq I_E I_I w_EE w_EI w_IE w_II tau_E tau_I dt k) else 0) [0 ..< M])"
    by (simp add: for_range_append Suc.IH [OF n(1)] del: euler_seq.simps split: sum.splits)
  also have "\<dots> = Inr (map (\<lambda>k. if k \<le> Suc n then fst (euler_seq I_E I_I w_EE w_EI w_IE w_II tau_E tau_I dt k) else 0) [0 ..< M],
           map (\<lambda>k. if k \<le> Suc n then snd (euler_seq I_E I_I w_EE w_EI w_IE w_II tau_E tau_I dt k) else 0) [0 ..< M])"
    using assms n
    by (simp add: WC_body_def py_div_def map_upt_update fun_eq_iff le_Suc_eq split: prod.splits)
  finally show ?case .
qed


lemma WC_solver_closed:
  assumes "0 < dt" "0 < T_end" "tau_E \<noteq> 0" "tau_I \<noteq> 0"
  shows "WC_solver I_E I_I w_EE w_EI w_IE w_II tau_E tau_I dt T_end =
    Inr (map (\<lambda>k. fst (euler_seq I_E I_I w_EE w_EI w_IE w_II tau_E tau_I dt k)) [0 ..< nat \<lceil>T_end / dt\<rceil>],
         map (\<lambda>k. snd (euler_seq I_E I_I w_EE w_EI w_IE w_II tau_E tau_I dt k)) [0 ..< nat \<lceil>T_end / dt\<rceil>],
         map (\<lambda>k. real k * dt) [0 ..< nat \<lceil>T_end / dt\<rceil>])"
proof -
  define M where "M = nat \<lceil>T_end / dt\<rceil>"
  have "0 < T_end / dt" using assms by simp
  then have M: "M - 1 < M" by (simp add: M_def)
  have cut: "map (\<lambda>k. if k \<le> M - 1 then f k else 0) [0 ..< M] = map f [0 ..< M]" for f :: "nat \<Rightarrow> real"
    by (rule map_cong) auto
  have "for_range (WC_body I_E I_I w_EE w_EI w_IE w_II tau_E tau_I dt) [0 ..< M - 1]
          (replicate M 0, replicate M 0)
      = Inr (map (\<lambda>k. fst (euler_seq I_E I_I w_EE w_EI w_IE w_II tau_E tau_I dt k)) [0 ..< M],
             map (\<lambda>k. snd (euler_seq I_E I_I w_EE w_EI w_IE w_II tau_E tau_I dt k)) [0 ..< M])"
    using WC_loop [OF assms(3,4) M, of I_E I_I w_EE w_EI w_IE w_II dt] by (simp only: cut)
  then show ?thesis
    using assms(1) by (simp add: WC_solver_def arange_pos M_def [symmetric])
qed

lemma length_euler_step_MW:
  "valid_shape I W tau \<Longrightarrow> length v = length W \<Longrightarrow> length (euler_step_MW I W tau dt v) = length W"
  by (simp add: euler_step_MW_def valid_shape_def)

lemma length_euler_seq_MW:
  "valid_shape I W tau \<Longrightarrow> length (euler_seq_MW I W tau dt n) = length W"
  by (induction n) (simp_all add: length_euler_step_MW)

lemma WC_body_MW_valid:
  assumes "valid_shape I W tau" "0 \<notin> set tau" "length r = length W"
  shows "WC_body_MW I W tau dt i r =
           Inr (map2 (\<lambda>row x. row[i + 1 := x]) r (euler_step_MW I W tau dt (column r i)))"
proof -
  have len: "length (column r i) = length W" using assms(3) by (simp add: column_def)
  have sq: "\<forall>row \<in> set W. length row = length (column r i)"
    using assms(1) len by (simp add: valid_shape_def)
  show ?thesis
    using assms len
    by (simp add: WC_body_MW_def matvec_def sq bcast_def set_column_def
        euler_step_MW_def valid_shape_def)
qed

lemma map2_column_update:
  assumes "length v = N"
  shows "map2 (\<lambda>row x. row[i := x]) (map (\<lambda>j. map (f j) [0 ..< M]) [0 ..< N]) v
       = map (\<lambda>j. map ((f j)(i := v ! j)) [0 ..< M]) [0 ..< N]"
  using assms by (intro nth_equalityI) (simp_all add: map_upt_update)

lemma column_table:
  assumes "i < M"
  shows "column (map (\<lambda>j. map (f j) [0 ..< M]) [0 ..< N]) i = map (\<lambda>j. f j i) [0 ..< N]"
  using assms by (simp add: column_def)

lemma WC_loop_MW:
  assumes "valid_shape I W tau" "0 \<notin> set tau"
  shows "n < M \<Longrightarrow>
    for_range (WC_body_MW I W tau dt) [0 ..< n] (replicate (length W) (replicate M 0))
    = Inr (map (\<lambda>j. map (\<lambda>k. if k \<le> n then euler_seq_MW I W tau dt k ! j else 0) [0 ..< M])
             [0 ..< length W])"
proof (induction n)
  case 0
  have "replicate (length W) (replicate M (0::real))
      = map (\<lambda>j. map (\<lambda>k. 0) [0 ..< M]) [0 ..< length W]"
    by (simp add: map_replicate_const)
  also have "\<dots> = map (\<lambda>j. map (\<lambda>k. if k \<le> 0 then euler_seq_MW I W tau dt k ! j else 0) [0 ..< M])
             [0 ..< length W]"
    by (intro map_cong refl) auto
  finally show ?case by simp
next
  case (Suc n)
  then have n: "n < M" "Suc n < M" by simp_all
  let ?s = "\<lambda>n. map (\<lambda>j. map (\<lambda>k. if k \<le> n then euler_seq_MW I W tau dt k ! j else 0) [0 ..< M])
             [0 ..< length W]"
  have col: "column (?s n) n = euler_seq_MW I W tau dt n"
    using n(1) length_euler_seq_MW [OF assms(1), of dt n]
      map_nth [of "euler_seq_MW I W tau dt n"]
    by (simp add: column_table)
  have "for_range (WC_body_MW I W tau dt) [0 ..< Suc n] (replicate (length W) (replicate M 0))
      = WC_body_MW I W tau dt n (?s n)"
    by (simp add: for_range_append Suc.IH [OF n(1)] split: sum.splits)
  also have "\<dots> = Inr (map2 (\<lambda>row x. row[n + 1 := x]) (?s n) (euler_seq_MW I W tau dt (Suc n)))"
    using WC_body_MW_valid [OF assms, of "?s n" dt n] by (simp add: col)
  also have "\<dots> = Inr (?s (Suc n))"
    using length_euler_seq_MW [OF assms(1), of dt "Suc n"]
    by (simp only: map2_column_update) (auto simp: fun_eq_iff le_Suc_eq)
  finally show ?case .
qed

lemma WC_solver_MW_closed:
  assumes "0 < dt" "0 < T_end" "valid_shape I W tau" "0 \<notin> set tau"
  shows "WC_solver_MW I W tau dt T_end =
    Inr (map (\<lambda>j. map (\<lambda>k. euler_seq_MW I W tau dt k ! j) [0 ..< nat \<lceil>T_end / dt\<rceil>]) [0 ..< length W],
         map (\<lambda>k. real k * dt) [0 ..< nat \<lceil>T_end / dt\<rceil>])"
proof -
  define M where "M = nat \<lceil>T_end / dt\<rceil>"
  have "0 < T_end / dt" using assms by simp
  then have M: "M - 1 < M" by (simp add: M_def)
  have cut: "map (\<lambda>k. if k \<le> M - 1 then f k else 0) [0 ..< M] = map f [0 ..< M]" for f :: "nat \<Rightarrow> real"
    by (rule map_cong) auto
  have "for_range (WC_body_MW I W tau dt) [0 ..< M - 1] (replicate (length W) (replicate M 0))
      = Inr (map (\<lambda>j. map (\<lambda>k. euler_seq_MW I W tau dt k ! j) [0 ..< M]) [0 ..< length W])"
    using WC_loop_MW [OF assms(3,4) M, of dt] by (simp only: cut)
  then show ?thesis
    using assms(1) by (simp add: WC_solver_MW_def arange_pos M_def [symmetric])
qed

section \<open>Degenerate grid\<close>

text \<open>C9: when \<open>0 < T_end \<le> dt\<close> the grid is the single point 0, the loop body of
  neither solver runs, and each solver returns one zero per population together with
  the grid \<open>[0]\<close>.\<close>

theorem single_point_grid:
  assumes "0 < dt" "0 < T_end" "T_end \<le> dt"
  shows "WC_solver I_E I_I w_EE w_EI w_IE w_II tau_E tau_I dt T_end = Inr ([0], [0], [0])
       \<and> WC_solver_MW I W tau dt T_end = Inr (replicate (length W) [0], [0])"
  using arange_single [OF assms(2,3)] by (simp add: WC_solver_def WC_solver_MW_def)

theorem single_point_grid_witness:
  "(0::real) < 2 \<and> (0::real) < 1 \<and> (1::real) \<le> 2
   \<and> WC_solver 1 1 2 (-1) 1 0 10 10 2 1 = Inr ([0], [0], [0])
   \<and> WC_solver_MW [1, 1, 1] [[0, 1], [2, 3]] [0] 2 1 = Inr ([[0], [0]], [0])"
  using single_point_grid [of 2 1 1 1 2 "-1" 1 0 10 10 "[1, 1, 1]" "[[0, 1], [2, 3]]" "[0]"]
  by (simp add: numeral_2_eq_2)

section \<open>The scalar solver follows the Euler recurrence\<close>

lemma act_fun_eq: "act_fun z = (if z > 0 then z else 0)"
  by (simp add: act_fun_def)

lemma act_fun_nonneg: "0 \<le> act_fun z"
  by (simp add: act_fun_eq)

lemma grid_pos:
  assumes "0 < dt" "0 < T_end"
  shows "0 < nat \<lceil>T_end / dt\<rceil>"
proof -
  have "0 < T_end / dt" using assms by simp
  then show ?thesis by simp
qed

text \<open>C2: for positive time constants, step and horizon the scalar solver returns two
  sequences that start at 0 and satisfy the explicit Euler recurrence at every step
  \<open>i\<close> from 0 to \<open>M - 2\<close>, both updates reading the values at index \<open>i\<close> only, with the
  rectifier \<open>x\<close> if \<open>x > 0\<close> else 0 as activation.\<close>

theorem WC_solver_recurrence:
  assumes "0 < tau_E" "0 < tau_I" "0 < dt" "0 < T_end"
  shows "\<exists>r_E r_I T.
      WC_solver I_E I_I w_EE w_EI w_IE w_II tau_E tau_I dt T_end = Inr (r_E, r_I, T)
    \<and> length T = nat \<lceil>T_end / dt\<rceil>
    \<and> 0 < length T \<and> length r_E = length T \<and> length r_I = length T
    \<and> r_E ! 0 = 0 \<and> r_I ! 0 = 0
    \<and> (\<forall>i. i + 1 < length T \<longrightarrow>
          r_E ! (i + 1) = r_E ! i + (dt / tau_E) *
             (- (r_E ! i) + (let x = w_EE * r_E ! i + w_EI * r_I ! i + I_E in if x > 0 then x else 0))
        \<and> r_I ! (i + 1) = r_I ! i + (dt / tau_I) *
             (- (r_I ! i) + (let x = w_IE * r_E ! i + w_II * r_I ! i + I_I in if x > 0 then x else 0)))"
proof -
  have ne: "tau_E \<noteq> 0" "tau_I \<noteq> 0" using assms by simp_all
  show ?thesis
    using grid_pos [OF assms(3,4)]
    by (simp add: WC_solver_closed [OF assms(3,4) ne] act_fun_eq Let_def split: prod.splits)
qed

lemma list_of_three:
  assumes "length xs = 3" "xs ! 0 = a" "xs ! 1 = b" "xs ! 2 = c"
  shows "xs = [a, b, c]"
proof (rule nth_equalityI)
  show "length xs = length [a, b, c]" using assms(1) by simp
next
  fix i assume "i < length xs"
  then have "i = 0 \<or> i = 1 \<or> i = 2" using assms(1) by auto
  then show "xs ! i = [a, b, c] ! i" using assms(2,3,4) by auto
qed

theorem WC_solver_recurrence_witness:
  "(0::real) < 2 \<and> (0::real) < 4 \<and> (0::real) < 1 \<and> (0::real) < 3
   \<and> (\<exists>T. WC_solver 1 (- 1) (1/2) (- 1) 1 (- 1/2) 2 4 1 3
              = Inr ([0, 1/2, 7/8], [0, 0, 0], T) \<and> length T = 3)"
proof -
  have h: "(0::real) < 2" "(0::real) < 4" "(0::real) < 1" "(0::real) < 3" by simp_all
  obtain r_E r_I T where
    sol: "WC_solver 1 (- 1) (1/2) (- 1) 1 (- 1/2) 2 4 1 3 = Inr (r_E, r_I, T)"
    and len: "length T = nat \<lceil>(3::real) / 1\<rceil>" "length r_E = length T" "length r_I = length T"
    and start: "r_E ! 0 = 0" "r_I ! 0 = 0"
    and step: "\<And>i. i + 1 < length T \<Longrightarrow>
          r_E ! (i + 1) = r_E ! i + (1 / 2) *
             (- (r_E ! i) + (let x = (1/2) * r_E ! i + (- 1) * r_I ! i + 1 in if x > 0 then x else 0))
        \<and> r_I ! (i + 1) = r_I ! i + (1 / 4) *
             (- (r_I ! i) + (let x = 1 * r_E ! i + (- 1/2) * r_I ! i + (- 1) in if x > 0 then x else 0))"
    using WC_solver_recurrence [OF h, of 1 "- 1" "1/2" "- 1" 1 "- 1/2"] by blast
  have l3: "length T = 3" "length r_E = 3" "length r_I = 3" using len by simp_all
  have s1: "r_E ! 1 = 1 / 2" "r_I ! 1 = 0"
    using step [of 0] l3 start by simp_all
  have s2: "r_E ! 2 = 7 / 8" "r_I ! 2 = 0"
    using step [of 1, unfolded s1] l3 by (simp_all add: numeral_2_eq_2)
  have "r_E = [0, 1/2, 7/8]" by (rule list_of_three [OF l3(2) start(1) s1(1) s2(1)])
  moreover have "r_I = [0, 0, 0]" by (rule list_of_three [OF l3(3) start(2) s1(2) s2(2)])
  ultimately show ?thesis using sol l3(1) by simp
qed

section \<open>The time grid of the solvers\<close>

text \<open>C5: for positive step and horizon the grid \<open>T\<close> returned by either solver has
  \<open>ceil(T_end/dt)\<close> points, starts at 0 and has \<open>T[k] = k*dt\<close>; consecutive points
  differ by \<open>dt\<close>. The scalar solver returns whenever no time constant is zero, the
  vectorized one whenever the shapes agree and no time constant is zero.\<close>

theorem time_grid:
  assumes "0 < dt" "0 < T_end"
  shows "(\<forall>r_E r_I r T.
            WC_solver I_E I_I w_EE w_EI w_IE w_II tau_E tau_I dt T_end = Inr (r_E, r_I, T)
            \<or> WC_solver_MW I W tau dt T_end = Inr (r, T) \<longrightarrow>
            length T = nat \<lceil>T_end / dt\<rceil> \<and> T ! 0 = 0
          \<and> (\<forall>k < length T. T ! k = real k * dt)
          \<and> (\<forall>k. k + 1 < length T \<longrightarrow> T ! (k + 1) - T ! k = dt))
       \<and> (tau_E \<noteq> 0 \<and> tau_I \<noteq> 0 \<longrightarrow>
            (\<exists>r_E r_I T. WC_solver I_E I_I w_EE w_EI w_IE w_II tau_E tau_I dt T_end = Inr (r_E, r_I, T)))
       \<and> (valid_shape I W tau \<and> 0 \<notin> set tau \<longrightarrow>
            (\<exists>r T. WC_solver_MW I W tau dt T_end = Inr (r, T)))"
proof -
  let ?G = "map (\<lambda>k. real k * dt) [0 ..< nat \<lceil>T_end / dt\<rceil>]"
  have G: "length ?G = nat \<lceil>T_end / dt\<rceil> \<and> ?G ! 0 = 0
          \<and> (\<forall>k < length ?G. ?G ! k = real k * dt)
          \<and> (\<forall>k. k + 1 < length ?G \<longrightarrow> ?G ! (k + 1) - ?G ! k = dt)"
    using grid_pos [OF assms] by (simp add: algebra_simps)
  have sc: "T = ?G" if "WC_solver I_E I_I w_EE w_EI w_IE w_II tau_E tau_I dt T_end = Inr (r_E, r_I, T)"
    for r_E r_I T
    using that by (auto simp: WC_solver_def arange_pos [OF assms(1)] Let_def split: sum.splits)
  have mw: "T = ?G" if "WC_solver_MW I W tau dt T_end = Inr (r, T)" for r T
    using that by (auto simp: WC_solver_MW_def arange_pos [OF assms(1)] Let_def split: sum.splits)
  have "\<exists>r_E r_I T. WC_solver I_E I_I w_EE w_EI w_IE w_II tau_E tau_I dt T_end = Inr (r_E, r_I, T)"
    if "tau_E \<noteq> 0" "tau_I \<noteq> 0"
    by (simp add: WC_solver_closed [OF assms that])
  moreover have "\<exists>r T. WC_solver_MW I W tau dt T_end = Inr (r, T)"
    if "valid_shape I W tau" "0 \<notin> set tau"
    by (simp add: WC_solver_MW_closed [OF assms that])
  ultimately show ?thesis using G sc mw by blast
qed


theorem time_grid_witness:
  "(0::real) < 1 / 2 \<and> (0::real) < 2 \<and> (1::real) \<noteq> 0
   \<and> valid_shape [1, 1] [[0, 0], [0, 0]] [1, 1] \<and> 0 \<notin> set [1, 1 :: real]
   \<and> (\<exists>r_E r_I T. WC_solver 1 1 0 0 0 0 1 1 (1 / 2) 2 = Inr (r_E, r_I, T)
         \<and> length T = 4 \<and> T ! 0 = 0 \<and> T ! 3 = 3 / 2 \<and> T ! 3 - T ! 2 = 1 / 2)
   \<and> (\<exists>r T. WC_solver_MW [1, 1] [[0, 0], [0, 0]] [1, 1] (1 / 2) 2 = Inr (r, T)
         \<and> length T = 4 \<and> T ! 0 = 0 \<and> T ! 3 = 3 / 2 \<and> T ! 3 - T ! 2 = 1 / 2)"
proof -
  have h: "(0::real) < 1 / 2" "(0::real) < 2" by simp_all
  note th = time_grid [OF h, of 1 1 0 0 0 0 1 1 "[1, 1]" "[[0, 0], [0, 0]]" "[1, 1]"]
  have vs: "valid_shape [1, 1] [[0, 0], [0, 0]] [1, 1]" by (simp add: valid_shape_def)
  have len: "nat \<lceil>(2::real) / (1 / 2)\<rceil> = 4" by simp
  from th obtain r_E r_I T where
    sc: "WC_solver 1 1 0 0 0 0 1 1 (1 / 2) 2 = Inr (r_E, r_I, T)" by auto
  from th vs obtain r T' where
    mw: "WC_solver_MW [1, 1] [[0, 0], [0, 0]] [1, 1] (1 / 2) 2 = Inr (r, T')" by auto
  have g: "length U = nat \<lceil>(2::real) / (1 / 2)\<rceil> \<and> U ! 0 = 0
          \<and> (\<forall>k < length U. U ! k = real k * (1 / 2))
          \<and> (\<forall>k. k + 1 < length U \<longrightarrow> U ! (k + 1) - U ! k = 1 / 2)"
    if "WC_solver 1 1 0 0 0 0 1 1 (1 / 2) 2 = Inr (a, b, U)
        \<or> WC_solver_MW [1, 1] [[0, 0], [0, 0]] [1, 1] (1 / 2) 2 = Inr (c, U)" for a b c U
    using th that by blast
  have "length U = 4 \<and> U ! 0 = 0 \<and> U ! 3 = 3 / 2 \<and> U ! 3 - U ! 2 = 1 / 2"
    if "WC_solver 1 1 0 0 0 0 1 1 (1 / 2) 2 = Inr (a, b, U)
        \<or> WC_solver_MW [1, 1] [[0, 0], [0, 0]] [1, 1] (1 / 2) 2 = Inr (c, U)" for a b c U
  proof -
    note gU = g [OF that]
    have l: "length U = 4" using gU len by simp
    have "U ! 3 = real 3 * (1 / 2)" using gU l by simp
    moreover have "U ! (2 + 1) - U ! 2 = 1 / 2" using gU l by simp
    ultimately show ?thesis using gU l by simp
  qed
  then show ?thesis using sc mw vs by auto
qed

section \<open>The vectorized solver generalizes the scalar one\<close>

lemma euler_seq_MW_two:
  "euler_seq_MW [I_E, I_I] [[w_EE, w_EI], [w_IE, w_II]] [tau_E, tau_I] dt n
   = [fst (euler_seq I_E I_I w_EE w_EI w_IE w_II tau_E tau_I dt n),
      snd (euler_seq I_E I_I w_EE w_EI w_IE w_II tau_E tau_I dt n)]"
  by (induction n) (simp_all add: euler_step_MW_def split: prod.splits)

text \<open>C1: for positive time constants, step and horizon, the vectorized solver on
  \<open>I = [I_E, I_I]\<close>, \<open>W = [[w_EE, w_EI], [w_IE, w_II]]\<close>, \<open>tau = [tau_E, tau_I]\<close> returns
  the trajectories of the scalar solver: row 0 is \<open>r_E\<close>, row 1 is \<open>r_I\<close>, and the grids
  are the same (in exact arithmetic, where the order of the additions does not
  matter).\<close>

theorem solvers_agree:
  assumes "0 < tau_E" "0 < tau_I" "0 < dt" "0 < T_end"
  shows "\<exists>r_E r_I T.
      WC_solver I_E I_I w_EE w_EI w_IE w_II tau_E tau_I dt T_end = Inr (r_E, r_I, T)
    \<and> WC_solver_MW [I_E, I_I] [[w_EE, w_EI], [w_IE, w_II]] [tau_E, tau_I] dt T_end
        = Inr ([r_E, r_I], T)"
proof -
  have ne: "tau_E \<noteq> 0" "tau_I \<noteq> 0" using assms by simp_all
  have vs: "valid_shape [I_E, I_I] [[w_EE, w_EI], [w_IE, w_II]] [tau_E, tau_I]"
    by (simp add: valid_shape_def)
  have nz: "0 \<notin> set [tau_E, tau_I]" using ne by simp
  show ?thesis
    by (simp add: WC_solver_closed [OF assms(3,4) ne] WC_solver_MW_closed [OF assms(3,4) vs nz]
        euler_seq_MW_two)
qed

theorem solvers_agree_witness:
  "(0::real) < 2 \<and> (0::real) < 4 \<and> (0::real) < 1 \<and> (0::real) < 3
   \<and> WC_solver 1 1 (1/2) (-1/2) (1/2) (-1/2) 2 4 1 3
        = Inr ([0, 1/2, 13/16], [0, 1/4, 15/32], [0, 1, 2])
   \<and> WC_solver_MW [1, 1] [[1/2, -1/2], [1/2, -1/2]] [2, 4] 1 3
        = Inr ([[0, 1/2, 13/16], [0, 1/4, 15/32]], [0, 1, 2])"
proof -
  have sc: "WC_solver 1 1 (1/2) (-1/2) (1/2) (-1/2) 2 4 1 3
        = Inr ([0, 1/2, 13/16], [0, 1/4, 15/32], [0, 1, 2])"
    by (simp add: WC_solver_def arange_def WC_body_def py_div_def act_fun_def upt_rec)
  show ?thesis
    using solvers_agree [of 2 4 1 3 1 1 "1/2" "-1/2" "1/2" "-1/2"] sc by simp
qed

section \<open>Non-negative activity\<close>

lemma euler_update_nonneg:
  assumes "0 < dt" "dt \<le> tau" "0 \<le> e"
  shows "0 \<le> e + dt / tau * (- e + act_fun x)"
proof -
  define a where "a = dt / tau"
  have a: "0 < a" "a \<le> 1" using assms by (simp_all add: a_def)
  have "e + a * (- e + act_fun x) = (1 - a) * e + a * act_fun x"
    by (simp add: algebra_simps)
  moreover have "0 \<le> (1 - a) * e" using a assms(3) by simp
  moreover have "0 \<le> a * act_fun x" using a act_fun_nonneg [of x] by simp
  ultimately show ?thesis unfolding a_def by linarith
qed

lemma euler_seq_nonneg:
  assumes "0 < dt" "dt \<le> tau_E" "dt \<le> tau_I"
  shows "0 \<le> fst (euler_seq I_E I_I w_EE w_EI w_IE w_II tau_E tau_I dt n)
       \<and> 0 \<le> snd (euler_seq I_E I_I w_EE w_EI w_IE w_II tau_E tau_I dt n)"
proof (induction n)
  case 0
  show ?case by simp
next
  case (Suc n)
  obtain e i where ei: "euler_seq I_E I_I w_EE w_EI w_IE w_II tau_E tau_I dt n = (e, i)"
    by (cases "euler_seq I_E I_I w_EE w_EI w_IE w_II tau_E tau_I dt n")
  then have "0 \<le> e" "0 \<le> i" using Suc by simp_all
  then show ?case
    using euler_update_nonneg [OF assms(1,2), of e] euler_update_nonneg [OF assms(1,3), of i]
    by (simp add: ei del: minus_add_distrib)
qed

lemma euler_step_MW_nth:
  assumes "valid_shape I W tau" "length v = length W" "j < length W"
  shows "euler_step_MW I W tau dt v ! j
       = v ! j + dt / (tau ! j) * (- (v ! j) + act_fun (sum_list (map2 (*) (W ! j) v) + I ! j))"
  using assms by (simp add: euler_step_MW_def valid_shape_def)

lemma euler_seq_MW_nonneg:
  assumes "0 < dt" "valid_shape I W tau" "\<forall>t \<in> set tau. dt \<le> t"
  shows "j < length W \<Longrightarrow> 0 \<le> euler_seq_MW I W tau dt n ! j"
proof (induction n arbitrary: j)
  case 0
  then show ?case by simp
next
  case (Suc n)
  have "tau ! j \<in> set tau" using Suc.prems assms(2) by (simp add: valid_shape_def)
  then have "dt \<le> tau ! j" using assms(3) by blast
  then show ?case
    using Suc euler_update_nonneg [OF assms(1), of "tau ! j" "euler_seq_MW I W tau dt n ! j"]
    by (simp add: euler_step_MW_nth [OF assms(2) length_euler_seq_MW [OF assms(2)]])
qed

text \<open>C10: when \<open>0 < dt \<le> tau\<close> for every population, every activity value returned
  by the scalar solver and, for a square \<open>W\<close> with \<open>I\<close> and \<open>tau\<close> of its dimension, by
  the vectorized solver is non-negative.\<close>

theorem activity_nonneg:
  assumes "0 < dt" "0 < T_end" "dt \<le> tau_E" "dt \<le> tau_I"
    and "valid_shape I W tau" "\<forall>t \<in> set tau. dt \<le> t"
  shows "(\<exists>r_E r_I T.
            WC_solver I_E I_I w_EE w_EI w_IE w_II tau_E tau_I dt T_end = Inr (r_E, r_I, T)
          \<and> (\<forall>x \<in> set r_E. 0 \<le> x) \<and> (\<forall>x \<in> set r_I. 0 \<le> x))
       \<and> (\<exists>r T. WC_solver_MW I W tau dt T_end = Inr (r, T)
          \<and> (\<forall>row \<in> set r. \<forall>x \<in> set row. 0 \<le> x))"
proof -
  have ne: "tau_E \<noteq> 0" "tau_I \<noteq> 0" using assms by auto
  have nz: "0 \<notin> set tau" using assms(1,6) by auto
  have "\<forall>x \<in> set (map (\<lambda>k. fst (euler_seq I_E I_I w_EE w_EI w_IE w_II tau_E tau_I dt k))
            [0 ..< nat \<lceil>T_end / dt\<rceil>]). 0 \<le> x"
       "\<forall>x \<in> set (map (\<lambda>k. snd (euler_seq I_E I_I w_EE w_EI w_IE w_II tau_E tau_I dt k))
            [0 ..< nat \<lceil>T_end / dt\<rceil>]). 0 \<le> x"
    using euler_seq_nonneg [OF assms(1,3,4)] by auto
  moreover have "\<forall>row \<in> set (map (\<lambda>j. map (\<lambda>k. euler_seq_MW I W tau dt k ! j)
            [0 ..< nat \<lceil>T_end / dt\<rceil>]) [0 ..< length W]). \<forall>x \<in> set row. 0 \<le> x"
    using euler_seq_MW_nonneg [OF assms(1,5,6)] by auto
  ultimately show ?thesis
    by (simp only: WC_solver_closed [OF assms(1,2) ne] WC_solver_MW_closed [OF assms(1,2,5) nz])
       blast
qed

theorem activity_nonneg_witness:
  "(0::real) < 1 \<and> (0::real) < 3 \<and> (1::real) \<le> 2 \<and> (1::real) \<le> 4
   \<and> valid_shape [1, -1] [[1/2, -1], [1, -1/2]] [2, 4] \<and> set [2, 4] \<subseteq> {t. (1::real) \<le> t}
   \<and> (\<exists>r_E r_I T.
            WC_solver 1 (-1) (1/2) (-1) 1 (-1/2) 2 4 1 3 = Inr (r_E, r_I, T)
          \<and> (\<forall>x \<in> set r_E. 0 \<le> x) \<and> (\<forall>x \<in> set r_I. 0 \<le> x))
   \<and> (\<exists>r T. WC_solver_MW [1, -1] [[1/2, -1], [1, -1/2]] [2, 4] 1 3 = Inr (r, T)
          \<and> (\<forall>row \<in> set r. \<forall>x \<in> set row. 0 \<le> x))"
proof -
  have h: "(0::real) < 1" "(0::real) < 3" "(1::real) \<le> 2" "(1::real) \<le> 4"
    "valid_shape [1, -1] [[1/2, -1], [1, -1/2]] [2, 4]" "\<forall>t \<in> set [2, 4]. (1::real) \<le> t"
    by (simp_all add: valid_shape_def)
  show ?thesis
    using activity_nonneg [OF h, of 1 "-1" "1/2" "-1" 1 "-1/2"] h by auto
qed

section \<open>Relaxation toward the drive without coupling\<close>

lemma euler_seq_no_weights:
  assumes "0 < I_E" "0 < I_I"
  shows "euler_seq I_E I_I 0 0 0 0 tau_E tau_I dt n
       = (I_E * (1 - (1 - dt / tau_E) ^ n), I_I * (1 - (1 - dt / tau_I) ^ n))"
proof (induction n)
  case 0
  show ?case by simp
next
  case (Suc n)
  show ?case using assms by (simp add: Suc act_fun_eq algebra_simps)
qed

lemma relax_step:
  fixes q :: real
  assumes "0 \<le> q" "q \<le> 1" "0 < c"
  shows "c * (1 - q ^ k) \<le> c * (1 - q ^ Suc k)"
    and "c * (1 - q ^ k) \<le> c"
    and "\<bar>c - c * (1 - q ^ Suc k)\<bar> \<le> \<bar>c - c * (1 - q ^ k)\<bar>"
proof -
  have p: "0 \<le> q ^ k" using assms(1) by simp
  have "q * q ^ k \<le> 1 * q ^ k" using assms(2) p by (rule mult_right_mono)
  then have le: "q ^ Suc k \<le> q ^ k" by simp
  then show "c * (1 - q ^ k) \<le> c * (1 - q ^ Suc k)" using assms(3) by simp
  show "c * (1 - q ^ k) \<le> c" using assms(3) p by (simp add: mult_le_cancel_left1)
  have "c - c * (1 - q ^ Suc k) = c * q ^ Suc k" "c - c * (1 - q ^ k) = c * q ^ k"
    by (simp_all add: algebra_simps)
  moreover have "0 \<le> c * q ^ Suc k" using assms(1,3) by simp
  moreover have "c * q ^ Suc k \<le> c * q ^ k" using le assms(3) by simp
  ultimately show "\<bar>c - c * (1 - q ^ Suc k)\<bar> \<le> \<bar>c - c * (1 - q ^ k)\<bar>" by simp
qed

text \<open>C8, as the code has it: with all four weights 0, positive drives and
  \<open>0 < dt \<le> tau\<close> for both populations, each activity sequence of the scalar solver is
  \<open>r[k] = I * (1 - (1 - dt/tau)^k)\<close>; it is non-decreasing, stays at or below \<open>I\<close>, and
  \<open>|I - r[k]|\<close> does not increase.\<close>

theorem relaxation_monotone:
  assumes "0 < dt" "0 < T_end" "dt \<le> tau_E" "dt \<le> tau_I" "0 < I_E" "0 < I_I"
  shows "\<exists>r_E r_I T.
      WC_solver I_E I_I 0 0 0 0 tau_E tau_I dt T_end = Inr (r_E, r_I, T)
    \<and> length T = nat \<lceil>T_end / dt\<rceil>
    \<and> length r_E = length T \<and> length r_I = length T
    \<and> (\<forall>k < length T. r_E ! k = I_E * (1 - (1 - dt / tau_E) ^ k) \<and> r_E ! k \<le> I_E
                      \<and> r_I ! k = I_I * (1 - (1 - dt / tau_I) ^ k) \<and> r_I ! k \<le> I_I)
    \<and> (\<forall>k. k + 1 < length T \<longrightarrow>
           r_E ! k \<le> r_E ! (k + 1) \<and> \<bar>I_E - r_E ! (k + 1)\<bar> \<le> \<bar>I_E - r_E ! k\<bar>
         \<and> r_I ! k \<le> r_I ! (k + 1) \<and> \<bar>I_I - r_I ! (k + 1)\<bar> \<le> \<bar>I_I - r_I ! k\<bar>)"
proof -
  have ne: "tau_E \<noteq> 0" "tau_I \<noteq> 0" using assms by auto
  have qE: "0 \<le> 1 - dt / tau_E" "1 - dt / tau_E \<le> 1" using assms by simp_all
  have qI: "0 \<le> 1 - dt / tau_I" "1 - dt / tau_I \<le> 1" using assms by simp_all
  note E = relax_step [OF qE assms(5)]
  note I = relax_step [OF qI assms(6)]
  show ?thesis
    using E I
    by (simp add: WC_solver_closed [OF assms(1,2) ne] euler_seq_no_weights [OF assms(5,6)]
        del: power_Suc)
qed

theorem relaxation_monotone_witness:
  "(0::real) < 1 \<and> (0::real) < 3 \<and> (1::real) \<le> 2 \<and> (1::real) \<le> 4
   \<and> (0::real) < 8 \<and> (0::real) < 16
   \<and> WC_solver 8 16 0 0 0 0 2 4 1 3 = Inr ([0, 4, 6], [0, 4, 7], [0, 1, 2])"
proof -
  have h: "(0::real) < 1" "(0::real) < 3" "(1::real) \<le> 2" "(1::real) \<le> 4"
    "(0::real) < 8" "(0::real) < 16" by simp_all
  obtain r_E r_I T where
    r: "WC_solver 8 16 0 0 0 0 2 4 1 3 = Inr (r_E, r_I, T)"
      "length r_E = length T" "length r_I = length T"
      "\<forall>k < length T. r_E ! k = 8 * (1 - (1 - 1 / 2) ^ k) \<and> r_E ! k \<le> 8
                      \<and> r_I ! k = 16 * (1 - (1 - 1 / 4) ^ k) \<and> r_I ! k \<le> 16"
    using relaxation_monotone [OF h] by blast
  have "WC_solver 8 16 0 0 0 0 2 4 1 3 = Inr ([0, 4, 6], [0, 4, 7], [0, 1, 2])"
    by (simp add: WC_solver_def arange_def WC_body_def py_div_def act_fun_def upt_rec)
  then show ?thesis using r by simp
qed

text \<open>C8 as the specification states it, for every valid parameter set, fails when the
  step exceeds the time constant: with \<open>tau_E = 1\<close>, \<open>dt = 2\<close> and drive 1 the second
  value is 2, above the drive.\<close>

theorem relaxation_overshoot:
  "WC_solver 1 1 0 0 0 0 1 1 2 4 = Inr ([0, 2], [0, 2], [0, 2]) \<and> \<not> ([0, 2 :: real] ! 1 \<le> 1)"
  by (simp add: WC_solver_def arange_def WC_body_def py_div_def act_fun_def upt_rec)

section \<open>One excitatory population: the boundary at w_EE = 1\<close>

lemma excit_step:
  "fst (euler_seq I_E I_I w 0 0 0 tau_E tau_I dt (Suc n))
   = fst (euler_seq I_E I_I w 0 0 0 tau_E tau_I dt n)
     + dt / tau_E * (- fst (euler_seq I_E I_I w 0 0 0 tau_E tau_I dt n)
                     + act_fun (w * fst (euler_seq I_E I_I w 0 0 0 tau_E tau_I dt n) + I_E))"
  by (simp split: prod.splits)

lemma euler_update_le:
  fixes dt tau e g B :: real
  assumes "0 < dt" "dt \<le> tau" "e \<le> B" "g \<le> B"
  shows "e + dt / tau * (- e + g) \<le> B"
proof -
  define a where "a = dt / tau"
  have a: "0 < a" "a \<le> 1" using assms by (simp_all add: a_def)
  have "e + a * (- e + g) = (1 - a) * e + a * g" by (simp add: algebra_simps)
  moreover have "(1 - a) * e \<le> (1 - a) * B" using a assms(3) by (simp add: mult_left_mono)
  moreover have "a * g \<le> a * B" using a assms(4) by simp
  moreover have "(1 - a) * B + a * B = B" by (simp add: algebra_simps)
  ultimately show ?thesis unfolding a_def by linarith
qed

lemma excit_bounded:
  assumes "0 < dt" "dt \<le> tau_E" "0 < I_E" "w < 1"
  shows "0 \<le> fst (euler_seq I_E I_I w 0 0 0 tau_E tau_I dt n)
       \<and> fst (euler_seq I_E I_I w 0 0 0 tau_E tau_I dt n) \<le> I_E / (1 - max w 0)"
proof (induction n)
  case 0
  have "0 < 1 - max w 0" using assms(4) by simp
  then show ?case using assms(3) by simp
next
  case (Suc n)
  define e where "e = fst (euler_seq I_E I_I w 0 0 0 tau_E tau_I dt n)"
  define B where "B = I_E / (1 - max w 0)"
  have e: "0 \<le> e" "e \<le> B" using Suc by (simp_all add: e_def B_def)
  have d: "0 < 1 - max w 0" using assms(4) by simp
  have fp: "max w 0 * B + I_E = B"
  proof -
    have "B * (1 - max w 0) = I_E" using d by (simp add: B_def)
    then show ?thesis by (simp add: algebra_simps)
  qed
  have B0: "0 \<le> B" using e by simp
  have "w * e \<le> max w 0 * e" using e(1) by (simp add: mult_right_mono)
  also have "\<dots> \<le> max w 0 * B" using e(2) by (simp add: mult_left_mono)
  finally have "w * e + I_E \<le> B" using fp by simp
  then have g: "act_fun (w * e + I_E) \<le> B" using B0 by (simp add: act_fun_eq)
  have "0 \<le> e + dt / tau_E * (- e + act_fun (w * e + I_E))"
    using euler_update_nonneg [OF assms(1,2) e(1)] .
  moreover have "e + dt / tau_E * (- e + act_fun (w * e + I_E)) \<le> B"
    using euler_update_le [OF assms(1,2) e(2) g] .
  ultimately show ?case
    unfolding excit_step e_def [symmetric] B_def [symmetric] by simp
qed

lemma excit_growing:
  assumes "0 < dt" "0 < tau_E" "0 < I_E" "1 < w"
  shows "real n * (dt / tau_E) * I_E \<le> fst (euler_seq I_E I_I w 0 0 0 tau_E tau_I dt n)
       \<and> fst (euler_seq I_E I_I w 0 0 0 tau_E tau_I dt n)
           + dt / tau_E * I_E \<le> fst (euler_seq I_E I_I w 0 0 0 tau_E tau_I dt (Suc n))"
proof (induction n)
  case 0
  show ?case using assms by (simp add: act_fun_eq)
next
  case (Suc n)
  define a where "a = dt / tau_E"
  define e where "e = fst (euler_seq I_E I_I w 0 0 0 tau_E tau_I dt (Suc n))"
  have a: "0 < a" using assms by (simp add: a_def)
  have aI: "0 < a * I_E" using a assms(3) by simp
  have "0 \<le> real n * a * I_E" using a assms(3) by simp
  then have lo: "real (Suc n) * a * I_E \<le> e"
    using Suc aI unfolding a_def [symmetric] e_def [symmetric] by (simp add: algebra_simps)
  then have e0: "0 \<le> e" using a assms(3)
    by (meson mult_nonneg_nonneg of_nat_0_le_iff less_imp_le order_trans)
  have "0 \<le> (w - 1) * e" using e0 assms(4) by simp
  then have we: "e \<le> w * e" by (simp add: algebra_simps)
  then have "0 < w * e + I_E" using e0 assms(3) by linarith
  then have g: "act_fun (w * e + I_E) = w * e + I_E" by (simp add: act_fun_eq)
  have "a * I_E \<le> a * (- e + (w * e + I_E))" using a we by simp
  then have "e + a * I_E \<le> e + a * (- e + act_fun (w * e + I_E))" using g by simp
  then show ?case
    using lo unfolding excit_step [of I_E I_I w tau_E tau_I dt "Suc n"] a_def [symmetric] e_def [symmetric]
    by simp
qed


text \<open>C7, as the code has it: in the single-excitatory configuration
  (\<open>w_EI = w_IE = w_II = 0\<close>) with positive drive and positive time constants, step and
  horizon, the scalar solver returns; when \<open>w_EE < 1\<close> and the step is not larger than
  \<open>tau_E\<close>, every \<open>r_E[k]\<close> stays within \<open>I_E / (1 - max(w_EE, 0))\<close>, a bound that does not
  depend on the horizon; when \<open>w_EE > 1\<close> the magnitude of \<open>r_E\<close> strictly increases at
  each step and \<open>r_E[k]\<close> is at least \<open>k * (dt/tau_E) * I_E\<close>, so it exceeds any bound on a
  long enough horizon.\<close>

theorem excitatory_boundary:
  assumes "0 < dt" "0 < T_end" "0 < tau_E" "0 < tau_I" "0 < I_E"
  shows "\<exists>r_E r_I T.
      WC_solver I_E I_I w_EE 0 0 0 tau_E tau_I dt T_end = Inr (r_E, r_I, T)
    \<and> length r_E = nat \<lceil>T_end / dt\<rceil>
    \<and> (w_EE < 1 \<and> dt \<le> tau_E \<longrightarrow>
          (\<forall>k < length r_E. \<bar>r_E ! k\<bar> \<le> I_E / (1 - max w_EE 0)))
    \<and> (1 < w_EE \<longrightarrow>
          (\<forall>k. k + 1 < length r_E \<longrightarrow> \<bar>r_E ! k\<bar> < \<bar>r_E ! (k + 1)\<bar>)
        \<and> (\<forall>k < length r_E. real k * (dt / tau_E) * I_E \<le> \<bar>r_E ! k\<bar>))"
proof -
  have ne: "tau_E \<noteq> 0" "tau_I \<noteq> 0" using assms by auto
  let ?e = "\<lambda>k. fst (euler_seq I_E I_I w_EE 0 0 0 tau_E tau_I dt k)"
  have bounded: "\<bar>?e k\<bar> \<le> I_E / (1 - max w_EE 0)" if "w_EE < 1" "dt \<le> tau_E" for k
    using excit_bounded [OF assms(1) that(2) assms(5) that(1), of I_I tau_I k] by simp
  have aI: "0 < dt / tau_E * I_E" using assms by simp
  have lower: "real k * (dt / tau_E) * I_E \<le> ?e k" if "1 < w_EE" for k
    using excit_growing [OF assms(1,3,5) that, of k I_I tau_I] by simp
  have nonneg: "0 \<le> ?e k" if "1 < w_EE" for k
  proof -
    have p: "0 \<le> dt" "0 \<le> tau_E" "0 \<le> I_E" using assms by simp_all
    have "0 \<le> real k * (dt / tau_E) * I_E"
      by (intro mult_nonneg_nonneg divide_nonneg_nonneg p of_nat_0_le_iff)
    then show ?thesis using lower [OF that, of k] by linarith
  qed
  have grow: "\<bar>?e k\<bar> < \<bar>?e (Suc k)\<bar>" if "1 < w_EE" for k
    using excit_growing [OF assms(1,3,5) that, of k I_I tau_I] aI nonneg [OF that, of k]
    by linarith
  have lower': "real k * (dt / tau_E) * I_E \<le> \<bar>?e k\<bar>" if "1 < w_EE" for k
    using lower [OF that, of k] by linarith
  show ?thesis
    using bounded grow lower'
    by (simp add: WC_solver_closed [OF assms(1,2) ne] del: euler_seq.simps)
qed

theorem excitatory_boundary_witness:
  "(0::real) < 1 \<and> (0::real) < 3 \<and> (0::real) < 2 \<and> (1/2 :: real) < 1 \<and> (1::real) \<le> 2
   \<and> (1::real) < 2
   \<and> (\<exists>r_E r_I T. WC_solver 1 0 (1/2) 0 0 0 2 2 1 3 = Inr (r_E, r_I, T)
         \<and> length r_E = 3 \<and> \<bar>r_E ! 2\<bar> \<le> 2)
   \<and> (\<exists>r_E r_I T. WC_solver 1 0 2 0 0 0 2 2 1 3 = Inr (r_E, r_I, T)
         \<and> length r_E = 3 \<and> \<bar>r_E ! 1\<bar> < \<bar>r_E ! 2\<bar> \<and> 1 \<le> \<bar>r_E ! 2\<bar>)"
proof -
  have h: "(0::real) < 1" "(0::real) < 3" "(0::real) < 2" "(0::real) < 2" "(0::real) < 1"
    by simp_all
  have len: "nat \<lceil>(3::real) / 1\<rceil> = 3" by simp
  have below: "\<exists>r_E r_I T. WC_solver 1 0 (1/2) 0 0 0 2 2 1 3 = Inr (r_E, r_I, T)
         \<and> length r_E = 3 \<and> \<bar>r_E ! 2\<bar> \<le> 2"
    using excitatory_boundary [OF h, of 0 "1/2"] unfolding len by fastforce
  have above: "\<exists>r_E r_I T. WC_solver 1 0 2 0 0 0 2 2 1 3 = Inr (r_E, r_I, T)
         \<and> length r_E = 3 \<and> \<bar>r_E ! 1\<bar> < \<bar>r_E ! 2\<bar> \<and> 1 \<le> \<bar>r_E ! 2\<bar>"
  proof -
    obtain r_E r_I T where
      r: "WC_solver 1 0 2 0 0 0 2 2 1 3 = Inr (r_E, r_I, T)" "length r_E = 3"
        "\<forall>k. k + 1 < length r_E \<longrightarrow> \<bar>r_E ! k\<bar> < \<bar>r_E ! (k + 1)\<bar>"
        "\<forall>k < length r_E. real k * (1 / 2) * 1 \<le> \<bar>r_E ! k\<bar>"
      using excitatory_boundary [OF h, of 0 2] unfolding len by auto
    have "\<bar>r_E ! 1\<bar> < \<bar>r_E ! 2\<bar>"
      using r(3) [rule_format, of 1] r(2) by (simp add: numeral_2_eq_2)
    moreover have "real 2 * (1 / 2) * 1 \<le> \<bar>r_E ! 2\<bar>" using r(4) [rule_format, of 2] r(2) by simp
    ultimately show ?thesis using r(1,2) by simp
  qed
  show ?thesis using below above by simp
qed

lemma large_step_closed:
  "fst (euler_seq 1 0 0 0 0 0 1 1 3 n) = 1 - (- 2) ^ n"
  by (induction n) (simp_all add: excit_step act_fun_eq del: euler_seq.simps(2))

text \<open>C7 as the specification states it, for all valid parameters, fails for a step
  larger than twice the time constant: with \<open>w_EE = 0 < 1\<close>, \<open>tau_E = 1\<close>, \<open>dt = 3\<close> and
  drive 1 the solver returns \<open>r_E[k] = 1 - (-2)^k\<close>, which no bound contains on every
  horizon.\<close>

theorem excitatory_unbounded_large_step:
  "\<not> (\<exists>B. \<forall>T_end > 0. \<forall>r_E r_I T.
        WC_solver 1 0 0 0 0 0 1 1 3 T_end = Inr (r_E, r_I, T) \<longrightarrow>
        (\<forall>k < length r_E. \<bar>r_E ! k\<bar> \<le> B))"
proof
  assume "\<exists>B. \<forall>T_end > 0. \<forall>r_E r_I T.
        WC_solver 1 0 0 0 0 0 1 1 3 T_end = Inr (r_E, r_I, T) \<longrightarrow>
        (\<forall>k < length r_E. \<bar>r_E ! k\<bar> \<le> B)"
  then obtain B where B: "\<And>T_end r_E r_I T. 0 < T_end \<Longrightarrow>
        WC_solver 1 0 0 0 0 0 1 1 3 T_end = Inr (r_E, r_I, T) \<Longrightarrow>
        \<forall>k < length r_E. \<bar>r_E ! k\<bar> \<le> B"
    by blast
  define n where "n = nat \<lceil>\<bar>B\<bar>\<rceil> + 1"
  have nB: "B < real n"
  proof -
    have "B \<le> \<bar>B\<bar>" by simp
    also have "\<bar>B\<bar> \<le> real_of_int \<lceil>\<bar>B\<bar>\<rceil>" by (rule le_of_int_ceiling)
    also have "\<dots> < real n" by (simp add: n_def)
    finally show ?thesis .
  qed
  define T_end :: real where "T_end = 3 * real (n + 1)"
  have pos: "0 < T_end" by (simp add: T_end_def)
  have "T_end / 3 = real (n + 1)" by (simp add: T_end_def)
  then have M: "nat \<lceil>T_end / 3\<rceil> = n + 1" by (simp only: ceiling_of_nat nat_int)
  have three: "(0::real) < 3" "(1::real) \<noteq> 0" by simp_all
  note cl = WC_solver_closed [OF three(1) pos three(2) three(2), of 1 0 0 0 0 0]
  have "\<forall>k < length (map (\<lambda>k. fst (euler_seq 1 0 0 0 0 0 1 1 3 k)) [0 ..< nat \<lceil>T_end / 3\<rceil>]).
          \<bar>map (\<lambda>k. fst (euler_seq 1 0 0 0 0 0 1 1 3 k)) [0 ..< nat \<lceil>T_end / 3\<rceil>] ! k\<bar> \<le> B"
    by (rule B [OF pos cl])
  then have "\<bar>fst (euler_seq 1 0 0 0 0 0 1 1 3 n)\<bar> \<le> B"
    unfolding M by (simp del: euler_seq.simps upt_Suc)
  then have le: "\<bar>1 - (- 2) ^ n\<bar> \<le> B" by (simp only: large_step_closed)
  have "Suc n \<le> 2 ^ n" by (simp add: Suc_leI)
  then have "real (Suc n) \<le> real (2 ^ n)" by (rule of_nat_mono)
  then have "real n + 1 \<le> 2 ^ n" by simp
  moreover have "\<bar>(- 2 :: real) ^ n\<bar> = 2 ^ n" by (simp add: power_abs)
  moreover have "\<bar>(- 2 :: real) ^ n\<bar> - 1 \<le> \<bar>1 - (- 2) ^ n\<bar>" by linarith
  ultimately have "real n \<le> \<bar>1 - (- 2 :: real) ^ n\<bar>" by linarith
  then show False using le nB by linarith
qed

section \<open>Parameters the solvers do not check\<close>

lemma for_range_first_error:
  assumes "0 < n" "body 0 s = Inl e"
  shows "for_range body [0 ..< n] s = Inl e"
  using assms by (simp add: upt_rec)

lemma grid_two:
  assumes "0 < dt" "dt < T_end"
  shows "0 < nat \<lceil>T_end / dt\<rceil> - 1"
proof -
  have "1 < T_end / dt" using assms by simp
  then have "1 < \<lceil>T_end / dt\<rceil>" by (simp add: less_ceiling_iff)
  then show ?thesis by simp
qed

lemma WC_body_zero_tau:
  assumes "tau_E = 0 \<or> tau_I = 0"
  shows "WC_body I_E I_I w_EE w_EI w_IE w_II tau_E tau_I dt i s = Inl ZeroDivisionError"
  using assms by (auto simp: WC_body_def py_div_def split: prod.splits)

lemma bcast_length:
  assumes "bcast f xs ys = Inr zs"
  shows "length zs = (if length xs = 1 then length ys else length xs)"
  using assms by (auto simp: bcast_def split: if_splits)

lemma set_column_error:
  assumes "length v \<noteq> length r" "length v \<noteq> 1"
  shows "set_column r i v = Inl ValueError"
  using assms by (simp add: set_column_def)

lemma WC_body_MW_shape_error:
  assumes "length r = length W" "W \<noteq> []" "\<forall>row \<in> set W. length row = K"
    and "K \<noteq> length W \<or> length I \<notin> {1, length W} \<or> length tau \<notin> {1, length W}"
  shows "WC_body_MW I W tau dt i r = Inl ValueError"
proof (cases "K = length W")
  case False
  have "hd W \<in> set W" using assms(2) by simp
  then have "\<not> (\<forall>row \<in> set W. length row = length (column r i))"
    using assms(1,3) False by (auto simp: column_def)
  then have "matvec W (column r i) = Inl ValueError" by (auto simp: matvec_def)
  then show ?thesis by (simp add: WC_body_MW_def)
next
  case True
  have col: "length (column r i) = length W" using assms(1) by (simp add: column_def)
  have sq: "\<forall>row \<in> set W. length row = length (column r i)"
    using assms(3) True col by simp
  have mv: "matvec W (column r i) = Inr (map (\<lambda>row. sum_list (map2 (*) row (column r i))) W)"
    using sq by (simp add: matvec_def)
  have bad: "length I \<notin> {1, length W} \<or> length tau \<notin> {1, length W}"
    using assms(4) True by simp
  show ?thesis
  proof (cases "bcast (+) (map (\<lambda>row. sum_list (map2 (*) row (column r i))) W) I")
    case (Inl e)
    then have "e = ValueError" by (auto simp: bcast_def split: if_splits)
    then show ?thesis using Inl by (simp add: WC_body_MW_def mv)
  next
    case net: (Inr net)
    note ln = bcast_length [OF net]
    show ?thesis
    proof (cases "bcast (+) (map uminus (column r i)) (map act_fun net)")
      case (Inl e)
      then have "e = ValueError" by (auto simp: bcast_def split: if_splits)
      then show ?thesis using Inl net by (simp add: WC_body_MW_def mv)
    next
      case drive: (Inr drive)
      note ld = bcast_length [OF drive]
      show ?thesis
      proof (cases "bcast (*) (map (\<lambda>t. dt / t) tau) drive")
        case (Inl e)
        then have "e = ValueError" by (auto simp: bcast_def split: if_splits)
        then show ?thesis using Inl net drive by (simp add: WC_body_MW_def mv)
      next
        case dr: (Inr dr)
        note lr = bcast_length [OF dr]
        show ?thesis
        proof (cases "bcast (+) (column r i) dr")
          case (Inl e)
          then have "e = ValueError" by (auto simp: bcast_def split: if_splits)
          then show ?thesis using Inl net drive dr by (simp add: WC_body_MW_def mv)
        next
          case v: (Inr v)
          note lv = bcast_length [OF v]
          have "length v \<noteq> length r \<and> length v \<noteq> 1"
            using bad ln ld lr lv col assms(1) net drive dr v
            by (auto simp: bcast_def split: if_splits)
          then have "set_column r (i + 1) v = Inl ValueError"
            by (simp add: set_column_error)
          then show ?thesis using net drive dr v by (simp add: WC_body_MW_def mv)
        qed
      qed
    qed
  qed
qed


text \<open>C3, as the code has it: neither solver checks its time constants. For a positive
  step and horizon, the scalar solver on a grid of at least two points (\<open>dt < T_end\<close>)
  with \<open>tau_E = 0\<close> or \<open>tau_I = 0\<close> ends with the ZeroDivisionError of \<open>dt/tau\<close>, raised
  by the first pass of the loop, and returns no trajectory; with time constants other
  than zero, negative ones included, the scalar solver returns a trajectory, and so does
  the vectorized solver when the shapes agree.\<close>

theorem time_constants_unchecked:
  assumes "0 < dt" "0 < T_end"
  shows "(tau_E = 0 \<or> tau_I = 0 \<longrightarrow> dt < T_end \<longrightarrow>
            WC_solver I_E I_I w_EE w_EI w_IE w_II tau_E tau_I dt T_end = Inl ZeroDivisionError)
       \<and> (tau_E \<noteq> 0 \<and> tau_I \<noteq> 0 \<longrightarrow>
            (\<exists>r_E r_I T. WC_solver I_E I_I w_EE w_EI w_IE w_II tau_E tau_I dt T_end
                           = Inr (r_E, r_I, T)))
       \<and> (valid_shape I W tau \<and> 0 \<notin> set tau \<longrightarrow>
            (\<exists>r T. WC_solver_MW I W tau dt T_end = Inr (r, T)))"
proof -
  have "WC_solver I_E I_I w_EE w_EI w_IE w_II tau_E tau_I dt T_end = Inl ZeroDivisionError"
    if z: "tau_E = 0 \<or> tau_I = 0" and lt: "dt < T_end"
  proof -
    have "for_range (WC_body I_E I_I w_EE w_EI w_IE w_II tau_E tau_I dt)
            [0 ..< nat \<lceil>T_end / dt\<rceil> - 1]
            (replicate (nat \<lceil>T_end / dt\<rceil>) 0, replicate (nat \<lceil>T_end / dt\<rceil>) 0)
          = Inl ZeroDivisionError"
      by (rule for_range_first_error [OF grid_two [OF assms(1) lt] WC_body_zero_tau [OF z]])
    then show ?thesis by (simp add: WC_solver_def arange_pos [OF assms(1)])
  qed
  moreover have "\<exists>r_E r_I T. WC_solver I_E I_I w_EE w_EI w_IE w_II tau_E tau_I dt T_end
                           = Inr (r_E, r_I, T)"
    if "tau_E \<noteq> 0" "tau_I \<noteq> 0"
    by (simp add: WC_solver_closed [OF assms that])
  moreover have "\<exists>r T. WC_solver_MW I W tau dt T_end = Inr (r, T)"
    if "valid_shape I W tau" "0 \<notin> set tau"
    by (simp add: WC_solver_MW_closed [OF assms that])
  ultimately show ?thesis by blast
qed

theorem time_constants_unchecked_witness:
  "(0::real) < 1 \<and> (0::real) < 3 \<and> (1::real) < 3
   \<and> WC_solver 1 1 0 0 0 0 0 1 1 3 = Inl ZeroDivisionError
   \<and> (- 2 :: real) \<noteq> 0 \<and> (1::real) \<noteq> 0
   \<and> (\<exists>r_E r_I T. WC_solver 1 1 0 0 0 0 (- 2) 1 1 3 = Inr (r_E, r_I, T))
   \<and> valid_shape [1, 1] [[0, 0], [0, 0]] [- 2, 1] \<and> 0 \<notin> set [- 2, 1 :: real]
   \<and> (\<exists>r T. WC_solver_MW [1, 1] [[0, 0], [0, 0]] [- 2, 1] 1 3 = Inr (r, T))"
proof -
  have h: "(0::real) < 1" "(0::real) < 3" by simp_all
  have vs: "valid_shape [1, 1] [[0, 0], [0, 0]] [- 2, 1]" by (simp add: valid_shape_def)
  show ?thesis
    using time_constants_unchecked [OF h, of 0 1 1 1 0 0 0 0 "[1, 1]" "[[0, 0], [0, 0]]" "[- 2, 1]"]
      time_constants_unchecked [OF h, of "- 2" 1 1 1 0 0 0 0 "[1, 1]" "[[0, 0], [0, 0]]" "[- 2, 1]"]
      vs
    by simp
qed

text \<open>C3 as the specification states it fails: with \<open>tau_E = -1\<close> (scalar solver) or
  \<open>tau = [-1, 1]\<close> (vectorized solver) no error is raised and a trajectory is
  returned.\<close>

theorem negative_tau_accepted:
  "WC_solver 1 0 0 0 0 0 (- 1) 1 2 4 = Inr ([0, - 2], [0, 0], [0, 2])
   \<and> WC_solver_MW [1, 0] [[0, 0], [0, 0]] [- 1, 1] 2 4 = Inr ([[0, - 2], [0, 0]], [0, 2])"
  by (simp add: WC_solver_def WC_solver_MW_def arange_def WC_body_def WC_body_MW_def
      py_div_def act_fun_def matvec_def bcast_def column_def set_column_def upt_rec)

text \<open>C4, as the code has it: the vectorized solver has no check of its own; a shape
  that numpy cannot combine raises numpy's ValueError in the first pass of the loop.
  On a grid of at least two points (\<open>0 < dt < T_end\<close>), for a non-empty \<open>W\<close> of \<open>N\<close> rows
  that all have \<open>K\<close> entries: when \<open>K \<noteq> N\<close>, or \<open>I\<close> or \<open>tau\<close> has a length other than \<open>N\<close> and
  1, the call ends with that error and returns nothing; in particular a 3x3 matrix
  with a drive vector of length 2 is rejected on such a grid.\<close>

theorem shape_mismatch_raises:
  assumes "0 < dt" "dt < T_end" "W \<noteq> []" "\<forall>row \<in> set W. length row = K"
    and "K \<noteq> length W \<or> length I \<notin> {1, length W} \<or> length tau \<notin> {1, length W}"
  shows "WC_solver_MW I W tau dt T_end = Inl ValueError"
proof -
  let ?M = "nat \<lceil>T_end / dt\<rceil>"
  let ?r = "replicate (length W) (replicate ?M (0::real))"
  have "WC_body_MW I W tau dt 0 ?r = Inl ValueError"
    by (rule WC_body_MW_shape_error [OF _ assms(3,4,5)]) simp
  then have "for_range (WC_body_MW I W tau dt) [0 ..< ?M - 1] ?r = Inl ValueError"
    by (rule for_range_first_error [OF grid_two [OF assms(1,2)]])
  then show ?thesis by (simp add: WC_solver_MW_def arange_pos [OF assms(1)])
qed

theorem shape_mismatch_raises_witness:
  "(0::real) < 1 \<and> (1::real) < 2 \<and> [[0, 0, 0], [0, 0, 0], [0, 0, 0 :: real]] \<noteq> []
   \<and> set (map length [[0, 0, 0], [0, 0, 0], [0, 0, 0 :: real]]) = {3}
   \<and> length [1, 1 :: real] \<notin> {1, length [[0, 0, 0], [0, 0, 0], [0, 0, 0 :: real]]}
   \<and> WC_solver_MW [1, 1] [[0, 0, 0], [0, 0, 0], [0, 0, 0]] [1, 1, 1] 1 2 = Inl ValueError"
proof -
  have h: "(0::real) < 1" "(1::real) < 2" "[[0, 0, 0], [0, 0, 0], [0, 0, 0 :: real]] \<noteq> []"
    "\<forall>row \<in> set [[0, 0, 0], [0, 0, 0], [0, 0, 0 :: real]]. length row = 3"
    "3 \<noteq> length [[0, 0, 0], [0, 0, 0], [0, 0, 0 :: real]]
     \<or> length [1, 1 :: real] \<notin> {1, length [[0, 0, 0], [0, 0, 0], [0, 0, 0 :: real]]}
     \<or> length [1, 1, 1 :: real] \<notin> {1, length [[0, 0, 0], [0, 0, 0], [0, 0, 0 :: real]]}"
    by simp_all
  show ?thesis
    using shape_mismatch_raises [OF h] by simp
qed

text \<open>C4 as the specification states it fails: a drive vector of length 1 with a 2x2
  matrix is broadcast and a trajectory is returned; and on a single-point grid the loop
  never runs, so a 3x3 matrix with a drive vector of length 2 is accepted.\<close>

theorem shape_mismatch_accepted:
  "WC_solver_MW [1] [[0, 0], [0, 0]] [1, 1] 1 2 = Inr ([[0, 1], [0, 1]], [0, 1])
   \<and> WC_solver_MW [1, 1] [[0, 0, 0], [0, 0, 0], [0, 0, 0]] [1, 1, 1] 2 2
       = Inr ([[0], [0], [0]], [0])"
  by (simp add: WC_solver_MW_def arange_def WC_body_MW_def
      act_fun_def matvec_def bcast_def column_def set_column_def upt_rec)

section \<open>The spectral analyzer\<close>

lemma argmax_from_spec:
  assumes "ys \<noteq> []" "idx < length ys" "ys ! idx = mp" "i = length ys"
    and "\<forall>k < length ys. ys ! k \<le> mp" "\<forall>k < idx. ys ! k < mp"
  shows "argmax_from as i mp idx < length (ys @ as)
       \<and> (\<forall>k < length (ys @ as). (ys @ as) ! k \<le> (ys @ as) ! argmax_from as i mp idx)
       \<and> (\<forall>k < argmax_from as i mp idx. (ys @ as) ! k < (ys @ as) ! argmax_from as i mp idx)"
  using assms
proof (induction as arbitrary: ys idx mp i)
  case Nil
  then show ?case by simp
next
  case (Cons a as)
  show ?case
  proof (cases "a > mp")
    case True
    have "argmax_from as (length (ys @ [a])) a (length ys) < length ((ys @ [a]) @ as)
       \<and> (\<forall>k < length ((ys @ [a]) @ as). ((ys @ [a]) @ as) ! k \<le> ((ys @ [a]) @ as) ! argmax_from as (length (ys @ [a])) a (length ys))
       \<and> (\<forall>k < argmax_from as (length (ys @ [a])) a (length ys). ((ys @ [a]) @ as) ! k < ((ys @ [a]) @ as) ! argmax_from as (length (ys @ [a])) a (length ys))"
      using Cons.prems True
      by (intro Cons.IH) (auto simp: nth_append less_Suc_eq)
    then show ?thesis using True Cons.prems(4) by simp
  next
    case False
    have "argmax_from as (length (ys @ [a])) mp idx < length ((ys @ [a]) @ as)
       \<and> (\<forall>k < length ((ys @ [a]) @ as). ((ys @ [a]) @ as) ! k \<le> ((ys @ [a]) @ as) ! argmax_from as (length (ys @ [a])) mp idx)
       \<and> (\<forall>k < argmax_from as (length (ys @ [a])) mp idx. ((ys @ [a]) @ as) ! k < ((ys @ [a]) @ as) ! argmax_from as (length (ys @ [a])) mp idx)"
      using Cons.prems False
      by (intro Cons.IH) (auto simp: nth_append less_Suc_eq)
    then show ?thesis using False Cons.prems(4) by simp
  qed
qed

lemma argmax_spec:
  assumes "a \<noteq> []"
  shows "argmax a < length a \<and> (\<forall>k < length a. a ! k \<le> a ! argmax a)
       \<and> (\<forall>k < argmax a. a ! k < a ! argmax a)"
proof -
  obtain a0 as where a: "a = a0 # as" using assms by (cases a) auto
  have "argmax_from as 1 a0 0 < length ([a0] @ as)
       \<and> (\<forall>k < length ([a0] @ as). ([a0] @ as) ! k \<le> ([a0] @ as) ! argmax_from as 1 a0 0)
       \<and> (\<forall>k < argmax_from as 1 a0 0. ([a0] @ as) ! k < ([a0] @ as) ! argmax_from as 1 a0 0)"
    by (rule argmax_from_spec) simp_all
  then show ?thesis by (simp add: a argmax_def)
qed

lemma length_fftfreq: "0 < n \<Longrightarrow> length (fftfreq n) = n"
  by (simp add: fftfreq_def Let_def)

lemma fftfreq_split:
  fixes n :: nat
  assumes "0 < n"
  shows "(n - 1) div 2 + 1 + n div 2 = n"
  using assms by arith

lemma fftfreq_nth:
  assumes "k < n"
  shows "fftfreq n ! k = (if k \<le> (n - 1) div 2 then real k else real k - real n) / real n"
proof -
  define N where "N = (n - 1) div 2 + 1"
  define h where "h = n div 2"
  have n: "N + h = n" using assms fftfreq_split [of n] by (simp add: N_def h_def)
  have ff: "fftfreq n = map (\<lambda>z. real_of_int z * (1 / (real n * 1)))
              (map int [0 ..< N] @ map (\<lambda>j. - int h + int j) [0 ..< h])"
    by (simp only: fftfreq_def Let_def N_def h_def)
  have kl: "k < length (map int [0 ..< N] @ map (\<lambda>j. - int h + int j) [0 ..< h])"
    using assms n by simp
  show ?thesis
  proof (cases "k < N")
    case True
    then have "(map int [0 ..< N] @ map (\<lambda>j. - int h + int j) [0 ..< h]) ! k = int k"
      by (simp add: nth_append)
    moreover have "k \<le> (n - 1) div 2" using True by (simp add: N_def)
    ultimately show ?thesis unfolding ff nth_map [OF kl] by simp
  next
    case False
    then have kh: "k - N < h" using assms n by linarith
    have "(map int [0 ..< N] @ map (\<lambda>j. - int h + int j) [0 ..< h]) ! k = - int h + int (k - N)"
      using False kh by (simp add: nth_append)
    also have "\<dots> = int k - int n" using False n by linarith
    finally have v: "(map int [0 ..< N] @ map (\<lambda>j. - int h + int j) [0 ..< h]) ! k = int k - int n" .
    have "\<not> k \<le> (n - 1) div 2" using False by (simp add: N_def)
    then show ?thesis unfolding ff nth_map [OF kl] v by simp
  qed
qed

lemma fft_nonempty:
  assumes "x \<noteq> []"
  shows "fft x = Inr (map (\<lambda>k. \<Sum>n < length x. of_real (x ! n)
                    * exp (\<i> * of_real (- 2 * pi * real k * real n / real (length x))))
                [0 ..< length x])"
proof -
  have sl: "sum_list (map f [0 ..< length x]) = (\<Sum>n < length x. f n)" for f :: "nat \<Rightarrow> complex"
    by (simp add: interv_sum_list_conv_sum_set_nat lessThan_atLeast0)
  show ?thesis
    unfolding fft_def cis_conv_exp sl using assms by (simp only: if_False)
qed

text \<open>C6: for a non-empty real signal \<open>x0\<close> of length \<open>M\<close> and a non-zero step \<open>dt\<close>, \<open>FF\<close>
  returns \<open>(freqs, X, max_freq, max_mag)\<close>: \<open>X\<close> is the discrete Fourier transform of
  \<open>x0\<close> minus its arithmetic mean, \<open>freqs[k]\<close> is the signed bin \<open>k/M\<close> (for
  \<open>k \<le> (M-1) div 2\<close>) or \<open>(k-M)/M\<close> (above) times \<open>1000/dt\<close>, and \<open>max_freq\<close>, \<open>max_mag\<close>
  are the frequency and the magnitude at the first bin \<open>m\<close> that maximizes \<open>|X|\<close> over all
  bins, bin 0 included. (A real signal has no missing entry, so the mean is over all of
  \<open>x0\<close>.)\<close>

theorem FF_spectrum:
  assumes "dt \<noteq> 0" "x0 \<noteq> []"
  shows "\<exists>freqs X max_freq max_mag m.
      FF dt x0 plotting = Inr (freqs, X, max_freq, max_mag)
    \<and> length freqs = length x0 \<and> length X = length x0
    \<and> (\<forall>k < length x0. X ! k =
          (\<Sum>n < length x0. of_real (x0 ! n - sum_list x0 / real (length x0))
              * exp (\<i> * of_real (- 2 * pi * real k * real n / real (length x0)))))
    \<and> (\<forall>k < length x0. freqs ! k =
          (if k \<le> (length x0 - 1) div 2 then real k else real k - real (length x0))
            / real (length x0) * (1000 / dt))
    \<and> m < length x0 \<and> max_freq = freqs ! m \<and> max_mag = cmod (X ! m)
    \<and> (\<forall>k < length x0. cmod (X ! k) \<le> max_mag) \<and> (\<forall>k < m. cmod (X ! k) < max_mag)"
proof -
  define x where "x = map (\<lambda>v. v - nanmean x0) x0"
  define X where "X = map (\<lambda>k. \<Sum>n < length x. of_real (x ! n)
                    * exp (\<i> * of_real (- 2 * pi * real k * real n / real (length x))))
                [0 ..< length x]"
  define freqs where "freqs = map (\<lambda>f. f * (1000 / dt)) (fftfreq (length x))"
  define m where "m = argmax (map cmod X)"
  have lx: "length x = length x0" by (simp add: x_def)
  have x: "x \<noteq> []" using assms(2) by (simp add: x_def)
  have M: "0 < length x0" using assms(2) by simp
  have lX: "length X = length x0" by (simp add: X_def lx)
  have ff: "FF dt x0 plotting = Inr (freqs, X, freqs ! m, cmod (X ! m))"
  proof -
    have pd: "py_div 1000 dt = Inr (1000 / dt)" using assms(1) by (simp add: py_div_def)
    have fx: "fft (map (\<lambda>v. v - nanmean x0) x0) = Inr X"
      using fft_nonempty [OF x] by (simp only: X_def x_def)
    show ?thesis
      unfolding FF_def pd fx Let_def sum.case freqs_def m_def x_def ..
  qed
  have lf: "length freqs = length x0" using M by (simp add: freqs_def lx length_fftfreq)
  have Xk: "X ! k = (\<Sum>n < length x0. of_real (x0 ! n - sum_list x0 / real (length x0))
              * exp (\<i> * of_real (- 2 * pi * real k * real n / real (length x0))))"
    if "k < length x0" for k
  proof -
    have "X ! k = (\<Sum>n < length x0. of_real (x ! n)
              * exp (\<i> * of_real (- 2 * pi * real k * real n / real (length x0))))"
      using that by (simp add: X_def lx)
    also have "\<dots> = (\<Sum>n < length x0. of_real (x0 ! n - sum_list x0 / real (length x0))
              * exp (\<i> * of_real (- 2 * pi * real k * real n / real (length x0))))"
      by (rule sum.cong) (simp_all add: x_def nanmean_def)
    finally show ?thesis .
  qed
  have fk: "freqs ! k = (if k \<le> (length x0 - 1) div 2 then real k else real k - real (length x0))
            / real (length x0) * (1000 / dt)" if "k < length x0" for k
  proof -
    have "freqs ! k = fftfreq (length x0) ! k * (1000 / dt)"
      using that length_fftfreq [OF M] by (simp add: freqs_def lx)
    then show ?thesis by (simp only: fftfreq_nth [OF that])
  qed
  have ne: "map cmod X \<noteq> []" using M lX by auto
  note am = argmax_spec [OF ne, folded m_def]
  have m: "m < length x0" using am lX by simp
  have mx: "cmod (X ! k) \<le> cmod (X ! m)" if "k < length x0" for k
    using am that lX m by simp
  have fst_max: "cmod (X ! k) < cmod (X ! m)" if "k < m" for k
    using am that lX m by simp
  have all: "FF dt x0 plotting = Inr (freqs, X, freqs ! m, cmod (X ! m))
    \<and> length freqs = length x0 \<and> length X = length x0
    \<and> (\<forall>k < length x0. X ! k =
          (\<Sum>n < length x0. of_real (x0 ! n - sum_list x0 / real (length x0))
              * exp (\<i> * of_real (- 2 * pi * real k * real n / real (length x0)))))
    \<and> (\<forall>k < length x0. freqs ! k =
          (if k \<le> (length x0 - 1) div 2 then real k else real k - real (length x0))
            / real (length x0) * (1000 / dt))
    \<and> m < length x0 \<and> freqs ! m = freqs ! m \<and> cmod (X ! m) = cmod (X ! m)
    \<and> (\<forall>k < length x0. cmod (X ! k) \<le> cmod (X ! m)) \<and> (\<forall>k < m. cmod (X ! k) < cmod (X ! m))"
    by (intro conjI allI impI refl ff lf lX Xk fk m mx fst_max)
  show ?thesis
    by (rule exI [of _ freqs], rule exI [of _ X], rule exI [of _ "freqs ! m"],
        rule exI [of _ "cmod (X ! m)"], rule exI [of _ m]) (rule all)
qed


theorem FF_spectrum_witness:
  "(1 / 10 :: real) \<noteq> 0 \<and> [1, 3 :: real] \<noteq> []
   \<and> FF (1 / 10) [1, 3] False = Inr ([0, - 5000], [0, - 2], - 5000, 2)"
proof -
  have h: "(1 / 10 :: real) \<noteq> 0" "[1, 3 :: real] \<noteq> []" by simp_all
  have c: "cis (- pi) = - 1" by (simp add: complex_eq_iff)
  have x: "map (\<lambda>v. v - nanmean [1, 3]) [1, 3 :: real] = [- 1, 1]"
    by (simp add: nanmean_def)
  have X: "fft [- 1, 1] = Inr [0, - 2]"
    by (simp add: fft_def upt_rec c)
  have f: "fftfreq (length [- 1, 1 :: real]) = [0, - (1 / 2)]"
    by (simp add: fftfreq_def upt_rec)
  have "FF (1 / 10) [1, 3] False = Inr ([0, - 5000], [0, - 2], - 5000, 2)"
    unfolding FF_def Let_def x X f by (simp add: py_div_def argmax_def)
  then show ?thesis using FF_spectrum [OF h, of False] by simp
qed

end
